theory Spec2Isabelle
  imports Complex_Main
begin

section \<open>Errors as values\<close>

text \<open>
  Every exception the decoder can raise is a value. \<open>AssertionError\<close> is the failed
  \<^verbatim>\<open>assert\<close> of \<^verbatim>\<open>forward\<close>, \<open>EinopsError\<close> is what \<^verbatim>\<open>einops.rearrange\<close> raises on an
  input whose rank does not fit the pattern, \<open>RuntimeError\<close> is a shape error of a tensor
  operation, \<open>ValueError\<close> a failed tuple unpacking, and \<open>NotANumber\<close> marks a result
  that is NaN in floating point and has no counterpart among the real numbers.
\<close>

datatype error = AssertionError | EinopsError | RuntimeError | ValueError | NotANumber

type_synonym 'a result = "error + 'a"

definition and_then :: "'a result \<Rightarrow> ('a \<Rightarrow> 'b result) \<Rightarrow> 'b result" where
  "and_then m f = (case m of Inl e \<Rightarrow> Inl e | Inr v \<Rightarrow> f v)"

fun sequence :: "'a result list \<Rightarrow> 'a list result" where
  "sequence [] = Inr []"
| "sequence (Inl e # rs) = Inl e"
| "sequence (Inr v # rs) = (case sequence rs of Inl e \<Rightarrow> Inl e | Inr vs \<Rightarrow> Inr (v # vs))"

section \<open>Tensors\<close>

text \<open>
  A tensor is a nested list: \<open>Sc\<close> is a tensor of rank 0 and \<open>Tn\<close> lists the slices
  along the leading axis. Floating-point entries are modelled as real numbers, boolean
  entries as \<open>bool\<close>, node indices as natural numbers. A tensor with an axis of length
  0 is represented up to that axis only (\<open>Tn []\<close>).
\<close>

datatype 'a tensor = Sc 'a | Tn "'a tensor list"

fun rows :: "'a tensor \<Rightarrow> 'a tensor list" where
  "rows (Sc x) = []"
| "rows (Tn xs) = xs"

fun shape :: "'a tensor \<Rightarrow> nat list option" where
  "shape (Sc x) = Some []"
| "shape (Tn []) = Some [0]"
| "shape (Tn (x # xs)) =
     (case shape x of
        None \<Rightarrow> None
      | Some s \<Rightarrow> if list_all (\<lambda>y. shape y = Some s) xs
                 then Some (Suc (length xs) # s) else None)"

fun ndim :: "'a tensor \<Rightarrow> nat" where
  "ndim (Sc x) = 0"
| "ndim (Tn []) = 1"
| "ndim (Tn (x # xs)) = Suc (ndim x)"

text \<open>The operator \<^verbatim>\<open>~\<close> on a boolean tensor.\<close>

definition tnot :: "bool tensor \<Rightarrow> bool tensor" where
  "tnot t = map_tensor Not t"

text \<open>\<^verbatim>\<open>torch.zeros_like\<close> keeps the shape and the dtype of its argument.\<close>

definition zeros_like :: "bool tensor \<Rightarrow> bool tensor" where
  "zeros_like t = map_tensor (\<lambda>_. False) t"

text \<open>\<^verbatim>\<open>t.all()\<close>: every entry is true.\<close>

fun tall :: "bool tensor \<Rightarrow> bool" where
  "tall (Sc b) = b"
| "tall (Tn xs) = list_all tall xs"

text \<open>
  \<^verbatim>\<open>t.exp()\<close>: a probability is kept as the exponential of its logarithm, \<open>Exp x\<close>
  standing for \<open>e\<^sup>x\<close>.
\<close>

datatype prob = Exp real

definition texp :: "real tensor \<Rightarrow> prob tensor" where
  "texp t = map_tensor Exp t"

text \<open>\<^verbatim>\<open>t.unsqueeze(1)\<close>: a new axis of length 1 after the leading one.\<close>

fun unsqueeze1 :: "'a tensor \<Rightarrow> 'a tensor result" where
  "unsqueeze1 (Sc x) = Inl RuntimeError"
| "unsqueeze1 (Tn xs) = Inr (Tn (map (\<lambda>x. Tn [x]) xs))"

text \<open>
  Addition of two tensors with broadcasting: axes are aligned from the last one, an axis
  of length 1 is stretched, and any other mismatch is a shape error.
\<close>

function (sequential) tadd :: "real tensor \<Rightarrow> real tensor \<Rightarrow> real tensor result" where
  "tadd (Sc a) (Sc b) = Inr (Sc (a + b))"
| "tadd (Sc a) (Tn ys) =
     (case sequence (map (\<lambda>y. tadd (Sc a) y) ys) of Inl e \<Rightarrow> Inl e | Inr zs \<Rightarrow> Inr (Tn zs))"
| "tadd (Tn xs) (Sc b) =
     (case sequence (map (\<lambda>x. tadd x (Sc b)) xs) of Inl e \<Rightarrow> Inl e | Inr zs \<Rightarrow> Inr (Tn zs))"
| "tadd (Tn xs) (Tn ys) =
     (case
        (if ndim (Tn xs) < ndim (Tn ys) then sequence (map (\<lambda>y. tadd (Tn xs) y) ys)
         else if ndim (Tn ys) < ndim (Tn xs) then sequence (map (\<lambda>x. tadd x (Tn ys)) xs)
         else if length xs = length ys then sequence (map (\<lambda>(x, y). tadd x y) (zip xs ys))
         else if length xs = 1 then sequence (map (\<lambda>y. tadd (hd xs) y) ys)
         else if length ys = 1 then sequence (map (\<lambda>x. tadd x (hd ys)) xs)
         else Inl RuntimeError)
      of Inl e \<Rightarrow> Inl e | Inr zs \<Rightarrow> Inr (Tn zs))"
  by pat_completeness auto
termination
proof -
  have le: "size x \<le> size_list size xs" if "x \<in> set xs" for x :: "real tensor" and xs
    using that by (rule size_list_estimation') simp
  have single: "size (hd xs) \<le> size_list size xs" if "length xs = Suc 0"
    for xs :: "real tensor list"
    using that by (cases xs) auto
  show ?thesis
  proof (relation "measure (\<lambda>(a, b). size a + size b)", goal_cases)
    case (6 xs ys z x y)
    then have "x \<in> set xs" and "y \<in> set ys"
      by (auto dest: set_zip_leftD set_zip_rightD)
    then show ?case
      using le [of x xs] le [of y ys] by simp
  next
    case (7 xs ys y)
    then show ?case
      using le [of y ys] single [of xs] by simp
  next
    case (8 xs ys x)
    then show ?case
      using le [of x xs] single [of ys] by simp
  qed (auto simp: less_Suc_eq_le le)
qed

text \<open>
  \<^verbatim>\<open>einops.rearrange(x, "b s l -> (s b) l")\<close>: the input must have exactly three axes; the
  first two are swapped and then merged, so that the index along \<open>s\<close> varies slower.
\<close>

definition rearrange_b_s_l_to_sb_l :: "'a tensor \<Rightarrow> 'a tensor result" where
  "rearrange_b_s_l_to_sb_l x =
     (case shape x of
        None \<Rightarrow> Inl EinopsError
      | Some s \<Rightarrow> if length s = 3
                 then Inr (Tn (concat (transpose (map rows (rows x)))))
                 else Inl EinopsError)"

text \<open>
  \<^verbatim>\<open>torch.stack(ts, 1)\<close>: the list must not be empty, the tensors must have one shape
  with at least one axis, and entry \<open>(b, t)\<close> of the result is entry \<open>b\<close> of the
  \<open>t\<close>-th tensor.
\<close>

definition stack1 :: "'a tensor list \<Rightarrow> 'a tensor result" where
  "stack1 ts =
     (case ts of
        [] \<Rightarrow> Inl RuntimeError
      | t # rest \<Rightarrow>
          (case shape t of
             None \<Rightarrow> Inl RuntimeError
           | Some s \<Rightarrow>
               if s = [] then Inl RuntimeError
               else if list_all (\<lambda>u. shape u = Some s) rest
               then Inr (Tn (map Tn (transpose (map rows ts))))
               else Inl RuntimeError))"

text \<open>
  The entries of the list \<^verbatim>\<open>outputs\<close> of \<^verbatim>\<open>forward\<close> differ in dtype: the entry of the
  seeding step is \<^verbatim>\<open>zeros_like\<close> of the boolean action mask, the entries of the main
  loop are floating-point. \<^verbatim>\<open>torch.stack\<close> promotes booleans to floating point when the
  list holds a floating-point tensor.
\<close>

datatype logp = is_BoolT: BoolT (un_BoolT: "bool tensor") | FloatT (un_FloatT: "real tensor")

fun to_float :: "logp \<Rightarrow> real tensor" where
  "to_float (BoolT t) = map_tensor of_bool t"
| "to_float (FloatT t) = t"

definition stack_outputs :: "logp list \<Rightarrow> logp result" where
  "stack_outputs os =
     (if list_all is_BoolT os
      then (case stack1 (map un_BoolT os) of Inl e \<Rightarrow> Inl e | Inr t \<Rightarrow> Inr (BoolT t))
      else (case stack1 (map to_float os) of Inl e \<Rightarrow> Inl e | Inr t \<Rightarrow> Inr (FloatT t)))"

subsection \<open>Linear layers, mean and chunk\<close>

fun is_Sc :: "'a tensor \<Rightarrow> bool" where
  "is_Sc (Sc x) = True"
| "is_Sc (Tn xs) = False"

text \<open>The entries of a tensor in row-major order; a tensor of rank 1 as a list.\<close>

fun entries :: "'a tensor \<Rightarrow> 'a list" where
  "entries (Sc x) = [x]"
| "entries (Tn xs) = concat (map entries xs)"

fun as_vector :: "'a tensor \<Rightarrow> 'a list option" where
  "as_vector (Sc x) = None"
| "as_vector (Tn xs) = (if list_all is_Sc xs then Some (entries (Tn xs)) else None)"

definition vec :: "'a list \<Rightarrow> 'a tensor" where
  "vec v = Tn (map Sc v)"

definition matvec :: "real list list \<Rightarrow> real list \<Rightarrow> real list" where
  "matvec W v = map (\<lambda>row. sum_list (map (\<lambda>(w, x). w * x) (zip row v))) W"

text \<open>
  \<^verbatim>\<open>nn.Linear(d_in, d_out, bias=False)\<close> with weight matrix \<open>W\<close> (\<open>d_out\<close> rows of
  length \<open>d_in\<close>), applied along the last axis.
\<close>

fun linear :: "real list list \<Rightarrow> real tensor \<Rightarrow> real tensor result" where
  "linear W (Sc x) = Inl RuntimeError"
| "linear W (Tn xs) =
     (case as_vector (Tn xs) of
        Some v \<Rightarrow>
          if list_all (\<lambda>row. length row = length v) W then Inr (vec (matvec W v))
          else Inl RuntimeError
      | None \<Rightarrow>
          (case sequence (map (linear W) xs) of Inl e \<Rightarrow> Inl e | Inr ys \<Rightarrow> Inr (Tn ys)))"

text \<open>The entrywise sum of two tensors of one shape.\<close>

function (sequential) tsum2 :: "real tensor \<Rightarrow> real tensor \<Rightarrow> real tensor" where
  "tsum2 (Sc a) (Sc b) = Sc (a + b)"
| "tsum2 (Tn xs) (Tn ys) = Tn (map (\<lambda>(x, y). tsum2 x y) (zip xs ys))"
| "tsum2 (Sc a) (Tn ys) = Sc a"
| "tsum2 (Tn xs) (Sc b) = Tn xs"
  by pat_completeness auto
termination
proof (relation "measure (\<lambda>(a, b). size a)", goal_cases)
  case (2 xs ys z x y)
  then have "x \<in> set xs"
    by (auto dest: set_zip_leftD)
  then have "size x \<le> size_list size xs"
    by (rule size_list_estimation') simp
  then show ?case
    by simp
qed simp

text \<open>
  \<^verbatim>\<open>x.mean(1)\<close>: the mean over the second axis. Over an axis of length 0 the
  floating-point result is NaN.
\<close>

definition mean1 :: "real tensor \<Rightarrow> real tensor result" where
  "mean1 x =
     (case shape x of
        None \<Rightarrow> Inl RuntimeError
      | Some s \<Rightarrow>
          if length s < 2 then Inl RuntimeError
          else if s ! 1 = 0 then Inl NotANumber
          else Inr (Tn (map (\<lambda>inst. map_tensor (\<lambda>v. v / real (s ! 1))
                                  (foldl tsum2 (hd (rows inst)) (tl (rows inst))))
                         (rows x))))"

text \<open>
  \<^verbatim>\<open>x.chunk(3, dim=-1)\<close> unpacked into three names: chunks of
  \<open>\<lceil>n / 3\<rceil>\<close> entries of the last axis; the unpacking fails unless there are
  exactly three chunks.
\<close>

definition chunk3_list :: "'a list \<Rightarrow> ('a list \<times> 'a list \<times> 'a list) result" where
  "chunk3_list v =
     (let n = length v; c = (n + 2) div 3 in
      if c = 0 then Inr ([], [], [])
      else if (n + c - 1) div c = 3 then Inr (take c v, take c (drop c v), drop (2 * c) v)
      else Inl ValueError)"

fun chunk3 :: "'a tensor \<Rightarrow> ('a tensor \<times> 'a tensor \<times> 'a tensor) result" where
  "chunk3 (Sc x) = Inl RuntimeError"
| "chunk3 (Tn xs) =
     (case as_vector (Tn xs) of
        Some v \<Rightarrow>
          (case chunk3_list v of
             Inl e \<Rightarrow> Inl e
           | Inr (a, b, c) \<Rightarrow> Inr (vec a, vec b, vec c))
      | None \<Rightarrow>
          (case sequence (map chunk3 xs) of
             Inl e \<Rightarrow> Inl e
           | Inr ts \<Rightarrow>
               Inr (Tn (map fst ts), Tn (map (\<lambda>t. fst (snd t)) ts),
                    Tn (map (\<lambda>t. snd (snd t)) ts))))"

section \<open>The instance-batch state and the helpers of \<^verbatim>\<open>rl4co.utils.ops\<close>\<close>

text \<open>
  The TensorDict \<^verbatim>\<open>td\<close>: its batch size, the fields the decoder reads and writes
  (\<^verbatim>\<open>action_mask\<close>, \<^verbatim>\<open>done\<close>, \<^verbatim>\<open>action\<close>, \<^verbatim>\<open>reward\<close>) and the other fields of the
  environment by name.
\<close>

record tensordict =
  batch_size :: "nat list"
  action_mask :: "bool tensor"
  done_flag :: "bool tensor"
  action :: "nat tensor option"
  reward :: "real tensor option"
  other :: "(string \<times> real tensor) list"

text \<open>
  Modelled from the spec: the helper \<^verbatim>\<open>batchify\<close> of \<^verbatim>\<open>rl4co.utils.ops\<close>, whose code
  is not part of the sources at hand. An expansion factor of 0 or 1 means no expansion;
  a factor \<open>k > 1\<close> replicates the batch \<open>k\<close> times along the batch axis, the rollout
  index varying slower than the index of the original instance
  (row \<open>s * B + b\<close> is a copy of instance \<open>b\<close>).
\<close>

definition batchify :: "'a tensor \<Rightarrow> int \<Rightarrow> 'a tensor result" where
  "batchify x repeats =
     (if repeats > 1
      then (case x of
              Sc v \<Rightarrow> Inl RuntimeError
            | Tn xs \<Rightarrow> Inr (Tn (concat (replicate (nat repeats) xs))))
      else Inr x)"

text \<open>
  Modelled from the spec: the helper \<^verbatim>\<open>unbatchify\<close> of \<^verbatim>\<open>rl4co.utils.ops\<close>, whose
  code is not part of the sources at hand. For an expansion factor \<open>k > 1\<close> the batch
  axis of length \<open>k * B\<close> is separated into the axes \<open>(B, k)\<close>, entry \<open>(b, s)\<close> being row
  \<open>s * B + b\<close>; a batch axis that \<open>k\<close> does not divide is a shape error. For a factor of
  0 or 1 it has no effect.
\<close>

definition unbatchify :: "'a tensor \<Rightarrow> int \<Rightarrow> 'a tensor result" where
  "unbatchify x repeats =
     (if repeats > 1
      then (case x of
              Sc v \<Rightarrow> Inl RuntimeError
            | Tn xs \<Rightarrow>
                (let k = nat repeats; b = length xs div k in
                 if b * k = length xs
                 then Inr (Tn (map (\<lambda>i. Tn (map (\<lambda>s. xs ! (s * b + i)) [0..<k])) [0..<b]))
                 else Inl RuntimeError))
      else Inr x)"

fun on_option :: "('a \<Rightarrow> 'b result) \<Rightarrow> 'a option \<Rightarrow> 'b option result" where
  "on_option f None = Inr None"
| "on_option f (Some x) = (case f x of Inl e \<Rightarrow> Inl e | Inr y \<Rightarrow> Inr (Some y))"

definition on_fields ::
  "(real tensor \<Rightarrow> real tensor result) \<Rightarrow> (string \<times> real tensor) list
     \<Rightarrow> (string \<times> real tensor) list result" where
  "on_fields f kvs =
     sequence (map (\<lambda>(k, v). case f v of Inl e \<Rightarrow> Inl e | Inr w \<Rightarrow> Inr (k, w)) kvs)"

text \<open>
  Modelled from the spec: \<^verbatim>\<open>batchify\<close> and \<^verbatim>\<open>unbatchify\<close> on a TensorDict act on the
  batch size and on every field.
\<close>

definition batchify_td :: "tensordict \<Rightarrow> int \<Rightarrow> tensordict result" where
  "batchify_td td repeats =
     (if repeats > 1
      then (case batch_size td of
              [] \<Rightarrow> Inl RuntimeError
            | b # bs \<Rightarrow>
                and_then (batchify (action_mask td) repeats) (\<lambda>am.
                and_then (batchify (done_flag td) repeats) (\<lambda>dn.
                and_then (on_option (\<lambda>t. batchify t repeats) (action td)) (\<lambda>ac.
                and_then (on_option (\<lambda>t. batchify t repeats) (reward td)) (\<lambda>rw.
                and_then (on_fields (\<lambda>t. batchify t repeats) (other td)) (\<lambda>ot.
                Inr \<lparr>batch_size = nat repeats * b # bs, action_mask = am, done_flag = dn,
                     action = ac, reward = rw, other = ot\<rparr>))))))
      else Inr td)"

definition unbatchify_td :: "tensordict \<Rightarrow> int \<Rightarrow> tensordict result" where
  "unbatchify_td td repeats =
     (if repeats > 1
      then (case batch_size td of
              [] \<Rightarrow> Inl RuntimeError
            | b # bs \<Rightarrow>
                if (b div nat repeats) * nat repeats = b
                then
                  and_then (unbatchify (action_mask td) repeats) (\<lambda>am.
                  and_then (unbatchify (done_flag td) repeats) (\<lambda>dn.
                  and_then (on_option (\<lambda>t. unbatchify t repeats) (action td)) (\<lambda>ac.
                  and_then (on_option (\<lambda>t. unbatchify t repeats) (reward td)) (\<lambda>rw.
                  and_then (on_fields (\<lambda>t. unbatchify t repeats) (other td)) (\<lambda>ot.
                  Inr \<lparr>batch_size = b div nat repeats # nat repeats # bs, action_mask = am,
                       done_flag = dn, action = ac, reward = rw, other = ot\<rparr>)))))
                else Inl RuntimeError)
      else Inr td)"

text \<open>
  \<^verbatim>\<open>td.set(key, value)\<close>: the leading axes of the value must be the batch size of the
  TensorDict.
\<close>

definition fits_batch :: "nat list \<Rightarrow> 'a tensor \<Rightarrow> bool" where
  "fits_batch bs t = (case shape t of None \<Rightarrow> False | Some s \<Rightarrow> take (length bs) s = bs)"

definition set_action :: "tensordict \<Rightarrow> nat tensor \<Rightarrow> tensordict result" where
  "set_action td a =
     (if fits_batch (batch_size td) a then Inr (td\<lparr>action := Some a\<rparr>) else Inl RuntimeError)"

definition set_reward :: "tensordict \<Rightarrow> real tensor \<Rightarrow> tensordict result" where
  "set_reward td r =
     (if fits_batch (batch_size td) r then Inr (td\<lparr>reward := Some r\<rparr>) else Inl RuntimeError)"

section \<open>The decoder\<close>

record PrecomputedCache =
  node_embeddings :: "real tensor"
  graph_context :: "real tensor"
  glimpse_key :: "real tensor"
  glimpse_val :: "real tensor"
  logit_key :: "real tensor"

text \<open>
  The attributes of \<^verbatim>\<open>Decoder\<close> and its collaborators. The environment
  (\<^verbatim>\<open>env.step(td)["next"]\<close>, \<^verbatim>\<open>env.get_reward\<close>), the context and dynamic embeddings,
  the attention unit \<^verbatim>\<open>LogitAttention\<close>, the action selection \<^verbatim>\<open>decode_probs\<close> and the
  seeding policy \<^verbatim>\<open>select_start_nodes\<close> are external: they are parameters, functions of
  their arguments. The two linear layers are given by their weight matrices.
\<close>

record decoder =
  embedding_dim :: nat
  num_heads :: nat
  env_step :: "tensordict \<Rightarrow> tensordict"
  env_get_reward :: "tensordict \<Rightarrow> nat tensor \<Rightarrow> real tensor"
  context_embedding :: "real tensor \<Rightarrow> tensordict \<Rightarrow> real tensor"
  dynamic_embedding :: "tensordict \<Rightarrow> real tensor \<times> real tensor \<times> real tensor"
  project_node_embeddings :: "real list list"
  project_fixed_context :: "real list list"
  logit_attention ::
    "real tensor \<Rightarrow> real tensor \<Rightarrow> real tensor \<Rightarrow> real tensor \<Rightarrow> bool tensor \<Rightarrow> real option
       \<Rightarrow> real tensor"
  decode_probs :: "prob tensor \<Rightarrow> bool tensor \<Rightarrow> string \<Rightarrow> nat tensor"
  select_start_nodes :: "tensordict \<Rightarrow> int \<Rightarrow> nat tensor"


subsection \<open>\<^verbatim>\<open>_precompute\<close>\<close>

definition precompute :: "decoder \<Rightarrow> real tensor \<Rightarrow> int \<Rightarrow> PrecomputedCache result" where
  "precompute self embeddings num_starts =
     and_then (linear (project_node_embeddings self) embeddings) (\<lambda>projected.
     and_then (chunk3 projected) (\<lambda>(glimpse_key_fixed, glimpse_val_fixed, logit_key_fixed).
     and_then (mean1 embeddings) (\<lambda>mean_embedding.
     and_then (linear (project_fixed_context self) mean_embedding) (\<lambda>fixed_context.
     and_then (batchify fixed_context num_starts) (\<lambda>batched.
     and_then (unbatchify batched num_starts) (\<lambda>graph_context.
     Inr \<lparr>node_embeddings = embeddings, graph_context = graph_context,
          glimpse_key = glimpse_key_fixed, glimpse_val = glimpse_val_fixed,
          logit_key = logit_key_fixed\<rparr>))))))"

subsection \<open>\<^verbatim>\<open>_get_log_p\<close>\<close>

text \<open>
  Lines 150 to 170 of \<^verbatim>\<open>_get_log_p\<close>: the log-probabilities and the mask on the
  unbatchified view of the state, before the axes are folded.
\<close>

definition unfolded_log_p ::
  "decoder \<Rightarrow> PrecomputedCache \<Rightarrow> tensordict \<Rightarrow> real option \<Rightarrow> (real tensor \<times> bool tensor) result"
  where
  "unfolded_log_p self cached td_unbatch softmax_temp =
     (let step_context = context_embedding self (node_embeddings cached) td_unbatch in
      and_then (tadd step_context (graph_context cached)) (\<lambda>glimpse_q.
      and_then (if ndim glimpse_q = 2 then unsqueeze1 glimpse_q else Inr glimpse_q) (\<lambda>glimpse_q.
      (case dynamic_embedding self td_unbatch of
         (glimpse_key_dynamic, glimpse_val_dynamic, logit_key_dynamic) \<Rightarrow>
      and_then (tadd (glimpse_key cached) glimpse_key_dynamic) (\<lambda>glimpse_k.
      and_then (tadd (glimpse_val cached) glimpse_val_dynamic) (\<lambda>glimpse_v.
      and_then (tadd (logit_key cached) logit_key_dynamic) (\<lambda>logit_k.
      (let mask = tnot (action_mask td_unbatch);
           log_p = logit_attention self glimpse_q glimpse_k glimpse_v logit_k mask softmax_temp
       in Inr (log_p, mask)))))))))"

definition get_log_p ::
  "decoder \<Rightarrow> PrecomputedCache \<Rightarrow> tensordict \<Rightarrow> real option \<Rightarrow> int
     \<Rightarrow> (real tensor \<times> bool tensor) result" where
  "get_log_p self cached td softmax_temp num_starts =
     and_then (unbatchify_td td num_starts) (\<lambda>td_unbatch.
     and_then (unfolded_log_p self cached td_unbatch softmax_temp) (\<lambda>(log_p, mask).
     and_then (if num_starts > 1 then rearrange_b_s_l_to_sb_l log_p else Inr log_p) (\<lambda>log_p.
     and_then (if num_starts > 1 then rearrange_b_s_l_to_sb_l mask else Inr mask) (\<lambda>mask.
     Inr (log_p, mask)))))"

subsection \<open>\<^verbatim>\<open>forward\<close>\<close>

text \<open>The test \<^verbatim>\<open>sub in s\<close> on strings.\<close>

primrec str_contains :: "string \<Rightarrow> string \<Rightarrow> bool" where
  "str_contains sub [] = (sub = [])"
| "str_contains sub (c # cs) = (take (length sub) (c # cs) = sub \<or> str_contains sub cs)"

text \<open>
  The calls \<^verbatim>\<open>forward\<close> makes, in the order it makes them: the log is what has happened
  up to a return or a raise. \<open>EnvStep a\<close> is a transition of the environment on a state
  whose \<^verbatim>\<open>action\<close> field is \<open>a\<close>. \<^verbatim>\<open>_get_log_p\<close> is called in the main loop only, once
  per iteration, so the number of \<open>GetLogP\<close> in the log of a run is the number of
  iterations it has started.
\<close>

datatype event =
    Precompute
  | SelectStartNodes
  | Batchify
  | EnvStep "nat tensor"
  | GetLogP
  | DecodeProbs
  | Stack
  | GetReward

text \<open>The actions on which the environment made a transition, in order.\<close>

fun applied_actions :: "event list \<Rightarrow> nat tensor list" where
  "applied_actions [] = []"
| "applied_actions (EnvStep a # es) = a # applied_actions es"
| "applied_actions (e # es) = applied_actions es"

text \<open>The local variables \<^verbatim>\<open>td\<close>, \<^verbatim>\<open>outputs\<close> and \<^verbatim>\<open>actions\<close> of \<^verbatim>\<open>forward\<close>, and the log.\<close>

record run =
  run_td :: tensordict
  outputs :: "logp list"
  actions :: "nat tensor list"
  calls :: "event list"

type_synonym 'a outcome = "(error \<times> event list) + 'a"

text \<open>Lines 82 to 96: the seeding branch.\<close>

definition multistart_seed ::
  "decoder \<Rightarrow> tensordict \<Rightarrow> string \<Rightarrow> int \<Rightarrow> event list \<Rightarrow> run outcome" where
  "multistart_seed self td decode_type num_starts trace =
     (if num_starts > 1 \<or> str_contains ''multistart'' decode_type
      then
        (let a = select_start_nodes self td num_starts in
         case batchify_td td num_starts of
           Inl e \<Rightarrow> Inl (e, trace @ [SelectStartNodes, Batchify])
         | Inr td1 \<Rightarrow>
             (case set_action td1 a of
                Inl e \<Rightarrow> Inl (e, trace @ [SelectStartNodes, Batchify])
              | Inr td2 \<Rightarrow>
                  (let td3 = env_step self td2;
                       log_p = zeros_like (action_mask td3)
                   in Inr \<lparr>run_td = td3, outputs = [BoolT log_p], actions = [a],
                           calls = trace @ [SelectStartNodes, Batchify, EnvStep a]\<rparr>)))
      else Inr \<lparr>run_td = td, outputs = [], actions = [], calls = trace\<rparr>)"

text \<open>
  Lines 98 to 110: the main loop. It may run forever; the first argument bounds the
  number of iterations, and \<open>None\<close> means that the loop was still running when the
  bound was reached.
\<close>

fun main_loop ::
  "nat \<Rightarrow> decoder \<Rightarrow> PrecomputedCache \<Rightarrow> real option \<Rightarrow> int \<Rightarrow> string \<Rightarrow> run
     \<Rightarrow> run outcome option" where
  "main_loop 0 self cached softmax_temp num_starts decode_type r =
     (if tall (done_flag (run_td r)) then Some (Inr r) else None)"
| "main_loop (Suc fuel) self cached softmax_temp num_starts decode_type r =
     (if tall (done_flag (run_td r)) then Some (Inr r)
      else
        (case get_log_p self cached (run_td r) softmax_temp num_starts of
           Inl e \<Rightarrow> Some (Inl (e, calls r @ [GetLogP]))
         | Inr scores \<Rightarrow>
             (let log_p = fst scores; mask = snd scores;
                  a = decode_probs self (texp log_p) mask decode_type in
              case set_action (run_td r) a of
                Inl e \<Rightarrow> Some (Inl (e, calls r @ [GetLogP, DecodeProbs]))
              | Inr td1 \<Rightarrow>
                  main_loop fuel self cached softmax_temp num_starts decode_type
                    \<lparr>run_td = env_step self td1,
                     outputs = outputs r @ [FloatT log_p],
                     actions = actions r @ [a],
                     calls = calls r @ [GetLogP, DecodeProbs, EnvStep a]\<rparr>)))"

text \<open>Lines 112 to 116: stacking the trace and computing the reward.\<close>

definition finish ::
  "decoder \<Rightarrow> bool \<Rightarrow> run \<Rightarrow> (logp \<times> nat tensor \<times> tensordict \<times> event list) outcome" where
  "finish self calc_reward r =
     (case stack_outputs (outputs r) of
        Inl e \<Rightarrow> Inl (e, calls r @ [Stack])
      | Inr outs \<Rightarrow>
          (case stack1 (actions r) of
             Inl e \<Rightarrow> Inl (e, calls r @ [Stack])
           | Inr acts \<Rightarrow>
               if calc_reward
               then (case set_reward (run_td r) (env_get_reward self (run_td r) acts) of
                       Inl e \<Rightarrow> Inl (e, calls r @ [Stack, GetReward])
                     | Inr td' \<Rightarrow> Inr (outs, acts, td', calls r @ [Stack, GetReward]))
               else Inr (outs, acts, run_td r, calls r @ [Stack])))"

definition forward ::
  "nat \<Rightarrow> decoder \<Rightarrow> tensordict \<Rightarrow> real tensor \<Rightarrow> string \<Rightarrow> real option \<Rightarrow> int option \<Rightarrow> bool
     \<Rightarrow> (logp \<times> nat tensor \<times> tensordict \<times> event list) outcome option" where
  "forward fuel self td embeddings decode_type softmax_temp num_starts_arg calc_reward =
     (let num_starts = (case num_starts_arg of None \<Rightarrow> 0 | Some n \<Rightarrow> n) in
      if str_contains ''multistart'' decode_type \<and> num_starts \<le> 1
      then Some (Inl (AssertionError, []))
      else
        (case precompute self embeddings num_starts of
           Inl e \<Rightarrow> Some (Inl (e, [Precompute]))
         | Inr cached_embeds \<Rightarrow>
             (case multistart_seed self td decode_type num_starts [Precompute] of
                Inl el \<Rightarrow> Some (Inl el)
              | Inr r0 \<Rightarrow>
                  (case main_loop fuel self cached_embeds softmax_temp num_starts decode_type r0 of
                     None \<Rightarrow> None
                   | Some (Inl el) \<Rightarrow> Some (Inl el)
                   | Some (Inr r1) \<Rightarrow> Some (finish self calc_reward r1)))))"

section \<open>The decoder on a store\<close>

text \<open>
  Tensors and TensorDicts are objects: a store holds the floating-point tensors, the
  boolean tensors and the TensorDicts, each kind by address. The cache is a record of
  five addresses; \<^verbatim>\<open>node_embeddings\<close> is the very tensor passed to \<^verbatim>\<open>_precompute\<close>. The
  operations of the decoder on tensors (\<^verbatim>\<open>+\<close>, \<^verbatim>\<open>~\<close>, \<^verbatim>\<open>rearrange\<close>, \<^verbatim>\<open>unsqueeze\<close>,
  \<^verbatim>\<open>unbatchify\<close>) and the external collaborators return new objects or views and write to
  no object; the only write of the decoder is \<^verbatim>\<open>td.set("action", action)\<close>, which
  updates the TensorDict in place. The collaborators are functions of the values of
  their arguments, as in the rest of the model.
\<close>

record heap =
  floats :: "real tensor list"
  bools :: "bool tensor list"
  dicts :: "tensordict list"

record cache_refs =
  node_embeddings_ref :: nat
  graph_context_ref :: nat
  glimpse_key_ref :: nat
  glimpse_val_ref :: nat
  logit_key_ref :: nat

definition lookup :: "'a list \<Rightarrow> nat \<Rightarrow> 'a result" where
  "lookup xs a = (if a < length xs then Inr (xs ! a) else Inl RuntimeError)"

definition new_float :: "heap \<Rightarrow> real tensor \<Rightarrow> heap \<times> nat" where
  "new_float h t = (h\<lparr>floats := floats h @ [t]\<rparr>, length (floats h))"



text \<open>The cache as a value: the tensors its fields refer to.\<close>

definition load_cache :: "heap \<Rightarrow> cache_refs \<Rightarrow> PrecomputedCache result" where
  "load_cache h refs =
     and_then (lookup (floats h) (node_embeddings_ref refs)) (\<lambda>ne.
     and_then (lookup (floats h) (graph_context_ref refs)) (\<lambda>gc.
     and_then (lookup (floats h) (glimpse_key_ref refs)) (\<lambda>gk.
     and_then (lookup (floats h) (glimpse_val_ref refs)) (\<lambda>gv.
     and_then (lookup (floats h) (logit_key_ref refs)) (\<lambda>lk.
     Inr \<lparr>node_embeddings = ne, graph_context = gc, glimpse_key = gk, glimpse_val = gv,
          logit_key = lk\<rparr>)))))"

text \<open>
  \<^verbatim>\<open>_precompute\<close> on the store: the embeddings are read at their address, and the four
  derived tensors are new objects.
\<close>

definition precompute_heap :: "decoder \<Rightarrow> nat \<Rightarrow> int \<Rightarrow> heap \<Rightarrow> (heap \<times> cache_refs) result" where
  "precompute_heap self embeddings_ref num_starts h =
     and_then (lookup (floats h) embeddings_ref) (\<lambda>embeddings.
     and_then (precompute self embeddings num_starts) (\<lambda>c.
       (let (h1, gc) = new_float h (graph_context c);
            (h2, gk) = new_float h1 (glimpse_key c);
            (h3, gv) = new_float h2 (glimpse_val c);
            (h4, lk) = new_float h3 (logit_key c)
        in Inr (h4, \<lparr>node_embeddings_ref = embeddings_ref, graph_context_ref = gc,
                     glimpse_key_ref = gk, glimpse_val_ref = gv, logit_key_ref = lk\<rparr>))))"



section \<open>The seeding policy and a small instance\<close>

text \<open>
  Modelled from the spec: the seeding policy \<^verbatim>\<open>select_start_nodes\<close> of
  \<^verbatim>\<open>rl4co.utils.ops\<close>, whose code is not part of the sources at hand. It selects one
  distinct starting node per parallel rollout: rollout \<open>s\<close> of every instance starts at
  node \<open>s\<close>, in the layout of the expanded batch (entry \<open>s * B + b\<close> belongs to rollout
  \<open>s\<close> of instance \<open>b\<close>).
\<close>

definition select_start_nodes_spec :: "tensordict \<Rightarrow> int \<Rightarrow> nat tensor" where
  "select_start_nodes_spec td num_starts =
     Tn (concat (map (\<lambda>s. replicate (case batch_size td of [] \<Rightarrow> 0 | b # bs \<Rightarrow> b) (Sc s))
                   [0..<nat num_starts]))"

text \<open>
  An environment with three nodes in which every node not yet visited is legal and an
  instance is done once no node is legal; a greedy selection that takes the first legal
  node; an attention unit that scores a legal node with 0 and a forbidden node with -1; embeddings
  that contribute 0. Embedding dimension 1, two instances.
\<close>

definition toy_step :: "tensordict \<Rightarrow> tensordict" where
  "toy_step td =
     (let am = map (\<lambda>(row, a). case a of Sc n \<Rightarrow> Tn ((rows row)[n := Sc False]) | Tn ys \<Rightarrow> row)
                 (zip (rows (action_mask td)) (case action td of None \<Rightarrow> [] | Some a \<Rightarrow> rows a))
      in td\<lparr>action_mask := Tn am, done_flag := Tn (map (\<lambda>row. Sc (tall (tnot row))) am)\<rparr>)"

definition toy_decode_probs :: "prob tensor \<Rightarrow> bool tensor \<Rightarrow> string \<Rightarrow> nat tensor" where
  "toy_decode_probs probs forbidden decode_type =
     Tn (map (\<lambda>row. Sc (length (takeWhile (\<lambda>t. t = Sc True) (rows row)))) (rows forbidden))"

definition toy_decoder :: decoder where
  "toy_decoder =
     \<lparr>embedding_dim = 1, num_heads = 1,
      env_step = toy_step,
      env_get_reward = (\<lambda>td acts. Tn (map (\<lambda>r. Sc 0) (rows acts))),
      context_embedding = (\<lambda>emb td. Sc 0),
      dynamic_embedding = (\<lambda>td. (Sc 0, Sc 0, Sc 0)),
      project_node_embeddings = [[1], [2], [3]],
      project_fixed_context = [[1]],
      logit_attention = (\<lambda>q k v lk mask temp. map_tensor (\<lambda>b. if b then - 1 else 0) mask),
      decode_probs = toy_decode_probs,
      select_start_nodes = select_start_nodes_spec\<rparr>"

definition toy_td :: tensordict where
  "toy_td =
     \<lparr>batch_size = [2],
      action_mask = Tn [Tn [Sc True, Sc True, Sc True], Tn [Sc True, Sc True, Sc True]],
      done_flag = Tn [Sc False, Sc False],
      action = None, reward = None, other = []\<rparr>"

text \<open>The state after the expansion to two rollouts per instance, and the cache for it.\<close>

definition toy_td_expanded :: tensordict where
  "toy_td_expanded =
     \<lparr>batch_size = [4],
      action_mask = Tn [Tn [Sc False, Sc True, Sc True], Tn [Sc False, Sc True, Sc True],
                        Tn [Sc True, Sc False, Sc True], Tn [Sc True, Sc False, Sc True]],
      done_flag = Tn [Sc False, Sc False, Sc False, Sc False],
      action = Some (Tn [Sc 0, Sc 0, Sc 1, Sc 1]), reward = None, other = []\<rparr>"

definition toy_cache :: "int \<Rightarrow> PrecomputedCache" where
  "toy_cache num_starts =
     \<lparr>node_embeddings = Tn [Tn [Tn [Sc 0], Tn [Sc 1], Tn [Sc 2]], Tn [Tn [Sc 3], Tn [Sc 4], Tn [Sc 8]]],
      graph_context =
        (if num_starts > 1 then Tn [Tn [Tn [Sc 1], Tn [Sc 1]], Tn [Tn [Sc 5], Tn [Sc 5]]]
         else Tn [Tn [Sc 1], Tn [Sc 5]]),
      glimpse_key = Tn [Tn [Tn [Sc 0], Tn [Sc 1], Tn [Sc 2]], Tn [Tn [Sc 3], Tn [Sc 4], Tn [Sc 8]]],
      glimpse_val = Tn [Tn [Tn [Sc 0], Tn [Sc 2], Tn [Sc 4]], Tn [Tn [Sc 6], Tn [Sc 8], Tn [Sc 16]]],
      logit_key = Tn [Tn [Tn [Sc 0], Tn [Sc 3], Tn [Sc 6]], Tn [Tn [Sc 9], Tn [Sc 12], Tn [Sc 24]]]\<rparr>"

definition toy_embeddings :: "real tensor" where
  "toy_embeddings = Tn [Tn [Tn [Sc 0], Tn [Sc 1], Tn [Sc 2]], Tn [Tn [Sc 3], Tn [Sc 4], Tn [Sc 8]]]"









definition toy_single_outs :: logp where
  "toy_single_outs =
     FloatT
       (Tn [Tn [Tn [Sc 0, Sc 0, Sc 0], Tn [Sc (- 1), Sc 0, Sc 0], Tn [Sc (- 1), Sc (- 1), Sc 0]],
            Tn [Tn [Sc 0, Sc 0, Sc 0], Tn [Sc (- 1), Sc 0, Sc 0], Tn [Sc (- 1), Sc (- 1), Sc 0]]])"

definition toy_single_acts :: "nat tensor" where
  "toy_single_acts = Tn [Tn [Sc 0, Sc 1, Sc 2], Tn [Sc 0, Sc 1, Sc 2]]"

definition toy_single_td :: tensordict where
  "toy_single_td =
     \<lparr>batch_size = [2],
      action_mask = Tn [Tn [Sc False, Sc False, Sc False], Tn [Sc False, Sc False, Sc False]],
      done_flag = Tn [Sc True, Sc True],
      action = Some (Tn [Sc 2, Sc 2]), reward = Some (Tn [Sc 0, Sc 0]), other = []\<rparr>"

definition toy_single_trace :: "event list" where
  "toy_single_trace =
     [Precompute, GetLogP, DecodeProbs, EnvStep (Tn [Sc 0, Sc 0]),
      GetLogP, DecodeProbs, EnvStep (Tn [Sc 1, Sc 1]),
      GetLogP, DecodeProbs, EnvStep (Tn [Sc 2, Sc 2]), Stack, GetReward]"

section \<open>Shapes, folding and unfolding of the batch axis\<close>

lemma shape_Tn_Some:
  assumes "shape (Tn xs) = Some (n # s)"
  shows "length xs = n" and "\<And>x. x \<in> set xs \<Longrightarrow> shape x = Some s"
  using assms by (cases xs; auto split: option.splits if_splits simp: list_all_iff)+

lemma shape_Some_is_Tn:
  assumes "shape t = Some (n # s)"
  shows "t = Tn (rows t)"
  using assms by (cases t) auto

lemma shape_TnI:
  assumes "xs \<noteq> []" and "\<And>x. x \<in> set xs \<Longrightarrow> shape x = Some s"
  shows "shape (Tn xs) = Some (length xs # s)"
  using assms by (cases xs) (auto simp: list_all_iff)

lemma shape_leading_pos:
  assumes "shape t = Some (n # m # s)"
  shows "0 < n"
  using assms by (cases t rule: shape.cases) (auto split: option.splits if_splits)

lemma shape_map_tensor: "shape (map_tensor f t) = shape t"
proof (induction t rule: shape.induct)
  case (3 x xs)
  show ?case
  proof (cases "shape x")
    case None
    with 3 show ?thesis by simp
  next
    case (Some s)
    have "list_all (\<lambda>y. shape y = Some s) (map (map_tensor f) xs)
          = list_all (\<lambda>y. shape y = Some s) xs"
      using 3(2) [OF Some] by (simp add: list_all_iff)
    with 3(1) Some show ?thesis by simp
  qed
qed simp_all

lemma rows_map_tensor: "rows (map_tensor f t) = map (map_tensor f) (rows t)"
  by (cases t) simp_all

lemma rearrange_map_tensor:
  "rearrange_b_s_l_to_sb_l (map_tensor f x)
   = (case rearrange_b_s_l_to_sb_l x of Inl e \<Rightarrow> Inl e | Inr y \<Rightarrow> Inr (map_tensor f y))"
proof -
  have "concat (transpose (map rows (map (map_tensor f) (rows x))))
        = map (map_tensor f) (concat (transpose (map rows (rows x))))"
  proof -
    have "map rows (map (map_tensor f) (rows x)) = map (map (map_tensor f)) (map rows (rows x))"
      by (simp add: rows_map_tensor)
    then show ?thesis
      by (simp only: transpose_map_map map_concat)
  qed
  then show ?thesis
    by (simp add: rearrange_b_s_l_to_sb_l_def shape_map_tensor rows_map_tensor
        split: option.splits)
qed

lemma length_3_conv: "length s = 3 \<longleftrightarrow> (\<exists>a b c. s = [a, b, c])"
  by (auto simp: numeral_3_eq_3 length_Suc_conv)

lemma rearrange_rank3:
  assumes "rearrange_b_s_l_to_sb_l x = Inr y"
  shows "\<exists>B S L. shape x = Some [B, S, L]"
proof -
  from assms obtain s where "shape x = Some s" and "length s = 3"
    by (auto simp: rearrange_b_s_l_to_sb_l_def split: option.splits if_splits)
  then show ?thesis
    by (auto simp: length_3_conv)
qed

lemma nth_concat_uniform:
  assumes "\<And>ys. ys \<in> set yss \<Longrightarrow> length ys = n" and "i < length yss" and "j < n"
  shows "concat yss ! (i * n + j) = yss ! i ! j"
  using assms
proof (induction yss arbitrary: i)
  case Nil
  then show ?case by simp
next
  case (Cons ys yss)
  have len: "length ys = n"
    using Cons.prems(1) by simp
  show ?case
  proof (cases i)
    case 0
    then show ?thesis
      using Cons.prems(3) len by (simp add: nth_append)
  next
    case (Suc i')
    then have "concat yss ! (i' * n + j) = yss ! i' ! j"
      using Cons.IH [of i'] Cons.prems by simp
    then show ?thesis
      using Suc len by (simp add: nth_append)
  qed
qed

lemma length_concat_uniform:
  assumes "\<And>ys. ys \<in> set yss \<Longrightarrow> length ys = n"
  shows "length (concat yss) = length yss * n"
  using assms by (induction yss) auto

lemma rearrange_starts_major:
  assumes "shape x = Some [B, S, L]"
  shows "\<exists>y. rearrange_b_s_l_to_sb_l x = Inr y \<and> shape y = Some [S * B, L]
           \<and> (\<forall>b<B. \<forall>s<S. rows y ! (s * B + b) = rows (rows x ! b) ! s)"
proof -
  define xs where "xs = rows x"
  have x: "x = Tn xs"
    using assms shape_Some_is_Tn xs_def by blast
  have lenB: "length xs = B" and row_shape: "\<And>r. r \<in> set xs \<Longrightarrow> shape r = Some [S, L]"
    using shape_Tn_Some [of xs B "[S, L]"] assms x by auto
  have Bpos: "0 < B"
    using assms by (rule shape_leading_pos)
  define m where "m = map rows xs"
  have m_len: "length m = B"
    by (simp add: m_def lenB)
  have m_rect: "length (m ! i) = S" if "i < length m" for i
  proof -
    have "xs ! i \<in> set xs" using that m_def by simp
    then have sh: "shape (xs ! i) = Some [S, L]" by (rule row_shape)
    then have "xs ! i = Tn (rows (xs ! i))" by (rule shape_Some_is_Tn)
    with sh have "shape (Tn (rows (xs ! i))) = Some [S, L]" by simp
    then have "length (rows (xs ! i)) = S" by (rule shape_Tn_Some(1))
    then show ?thesis using that by (simp add: m_def)
  qed
  have cell: "shape (m ! i ! j) = Some [L]" if "i < B" "j < S" for i j
  proof -
    have "xs ! i \<in> set xs" using that lenB by simp
    then have sh: "shape (xs ! i) = Some [S, L]" by (rule row_shape)
    then have "xs ! i = Tn (rows (xs ! i))" by (rule shape_Some_is_Tn)
    with sh have sh': "shape (Tn (rows (xs ! i))) = Some [S, L]" by simp
    have "length (rows (xs ! i)) = S" using sh' by (rule shape_Tn_Some(1))
    then have "rows (xs ! i) ! j \<in> set (rows (xs ! i))" using that by simp
    then have "shape (rows (xs ! i) ! j) = Some [L]" using sh' shape_Tn_Some(2) by blast
    then show ?thesis using that lenB by (simp add: m_def)
  qed
  have Spos: "0 < S"
  proof -
    have "xs ! 0 \<in> set xs" using Bpos lenB by simp
    then have sh: "shape (xs ! 0) = Some [S, L]" by (rule row_shape)
    then show ?thesis by (rule shape_leading_pos)
  qed
  have tr: "transpose m = map (\<lambda>s. map (\<lambda>b. m ! b ! s) [0..<B]) [0..<S]"
    using transpose_rectangle [of m S] m_rect m_len Bpos by auto
  define y where "y = concat (transpose m)"
  have rr: "rearrange_b_s_l_to_sb_l x = Inr (Tn y)"
    using assms by (simp add: rearrange_b_s_l_to_sb_l_def y_def m_def x)
  have uni: "length ys = B" if "ys \<in> set (transpose m)" for ys
    using that by (auto simp: tr)
  have ylen: "length y = S * B"
    unfolding y_def using length_concat_uniform [of "transpose m" B] uni by (simp add: tr)
  have ynth: "y ! (s * B + b) = m ! b ! s" if "b < B" "s < S" for b s
  proof -
    have "concat (transpose m) ! (s * B + b) = transpose m ! s ! b"
      using nth_concat_uniform [of "transpose m" B s b] uni that by (simp add: tr)
    then show ?thesis using that by (simp add: y_def tr)
  qed
  have yshape: "shape z = Some [L]" if "z \<in> set y" for z
  proof -
    from that obtain ys where "ys \<in> set (transpose m)" "z \<in> set ys"
      by (auto simp: y_def)
    then obtain s b where "s < S" "b < B" "z = m ! b ! s"
      by (auto simp: tr)
    then show ?thesis using cell by simp
  qed
  have "y \<noteq> []"
    using ylen Bpos Spos by auto
  then have "shape (Tn y) = Some [S * B, L]"
    using shape_TnI [of y "[L]"] yshape ylen by simp
  moreover have "rows (Tn y) ! (s * B + b) = rows (rows x ! b) ! s" if "b < B" "s < S" for b s
    using ynth that lenB by (simp add: m_def x)
  ultimately show ?thesis
    using rr by blast
qed


lemma concat_chunks:
  assumes "length xs = K * b"
  shows "concat (map (\<lambda>s. map (\<lambda>i. xs ! (s * b + i)) [0..<b]) [0..<K]) = xs"
proof (rule nth_equalityI)
  let ?yss = "map (\<lambda>s. map (\<lambda>i. xs ! (s * b + i)) [0..<b]) [0..<K]"
  have uni: "\<And>ys. ys \<in> set ?yss \<Longrightarrow> length ys = b"
    by auto
  show len: "length (concat ?yss) = length xs"
    using length_concat_uniform [of ?yss b] uni assms by simp
  fix j
  assume "j < length (concat ?yss)"
  then have j: "j < K * b"
    using len assms by simp
  then have bpos: "0 < b"
    by (cases b) auto
  have d: "j div b < K"
    using j bpos by (simp add: less_mult_imp_div_less mult.commute)
  have m: "j mod b < b"
    using bpos by simp
  have "concat ?yss ! (j div b * b + j mod b) = ?yss ! (j div b) ! (j mod b)"
    using nth_concat_uniform [of ?yss b "j div b" "j mod b"] uni d m by simp
  also have "\<dots> = xs ! (j div b * b + j mod b)"
    using d m by simp
  finally show "concat ?yss ! j = xs ! j"
    by simp
qed

lemma rearrange_unbatchify:
  assumes "1 < k" and "unbatchify x k = Inr u" and "rearrange_b_s_l_to_sb_l u = Inr y"
  shows "y = x"
proof -
  from assms(1,2) obtain xs where x: "x = Tn xs"
    by (cases x) (auto simp: unbatchify_def)
  define K where "K = nat k"
  define b where "b = length xs div K"
  have "b * K = length xs"
    using assms(1,2) by (auto simp: unbatchify_def x K_def b_def Let_def split: if_splits)
  then have len: "length xs = K * b"
    by (simp add: mult.commute)
  have u: "u = Tn (map (\<lambda>i. Tn (map (\<lambda>s. xs ! (s * b + i)) [0..<K])) [0..<b])"
    using assms(1,2) by (auto simp: unbatchify_def x K_def b_def Let_def split: if_splits)
  define m where "m = map (\<lambda>i. map (\<lambda>s. xs ! (s * b + i)) [0..<K]) [0..<b]"
  have rows_u: "map rows (rows u) = m"
    by (simp add: u m_def comp_def)
  obtain B S L where sh: "shape u = Some [B, S, L]"
    using rearrange_rank3 [OF assms(3)] by blast
  have "length (rows u) = B"
    using sh shape_Tn_Some(1) [of "rows u" B "[S, L]"] shape_Some_is_Tn [OF sh] by simp
  then have bB: "b = B"
    by (simp add: u)
  have Bpos: "0 < B"
    using sh by (rule shape_leading_pos)
  have "transpose m = map (\<lambda>s. map (\<lambda>i. m ! i ! s) [0..<length m]) [0..<K]"
    using Bpos bB by (intro transpose_rectangle) (auto simp: m_def)
  also have "\<dots> = map (\<lambda>s. map (\<lambda>i. xs ! (s * b + i)) [0..<b]) [0..<K]"
    by (auto simp: m_def)
  finally have "concat (transpose m) = xs"
    using concat_chunks [OF len] by simp
  moreover have "y = Tn (concat (transpose (map rows (rows u))))"
    using assms(3) by (auto simp: rearrange_b_s_l_to_sb_l_def split: option.splits if_splits)
  ultimately show ?thesis
    by (simp add: rows_u x)
qed

lemma unbatchify_starts_axis:
  assumes "1 < k" and "unbatchify x k = Inr u" and "shape u = Some [B, S, L]"
  shows "S = nat k" and "length (rows x) = nat k * B"
proof -
  from assms(1,2) obtain xs where x: "x = Tn xs"
    by (cases x) (auto simp: unbatchify_def)
  define K where "K = nat k"
  define b where "b = length xs div K"
  have "b * K = length xs"
    using assms(1,2) by (auto simp: unbatchify_def x K_def b_def Let_def split: if_splits)
  then have len: "length xs = K * b"
    by (simp add: mult.commute)
  have u: "u = Tn (map (\<lambda>i. Tn (map (\<lambda>s. xs ! (s * b + i)) [0..<K])) [0..<b])"
    using assms(1,2) by (auto simp: unbatchify_def x K_def b_def Let_def split: if_splits)
  have lenB: "length (rows u) = B" and rowsh: "\<And>r. r \<in> set (rows u) \<Longrightarrow> shape r = Some [S, L]"
    using assms(3) shape_Tn_Some [of "rows u" B "[S, L]"] shape_Some_is_Tn [OF assms(3)] by auto
  have bB: "b = B"
    using lenB by (simp add: u)
  have Bpos: "0 < B"
    using assms(3) by (rule shape_leading_pos)
  have "rows u ! 0 \<in> set (rows u)"
    using Bpos lenB by simp
  then have "shape (rows u ! 0) = Some [S, L]"
    by (rule rowsh)
  moreover have "rows u ! 0 = Tn (map (\<lambda>s. xs ! (s * b + 0)) [0..<K])"
    using Bpos bB by (simp add: u)
  ultimately have "length (map (\<lambda>s. xs ! (s * b + 0)) [0..<K]) = S"
    using shape_Tn_Some(1) by metis
  then show "S = nat k"
    by (simp add: K_def)
  show "length (rows x) = nat k * B"
    using len by (simp add: x K_def bB)
qed

lemma get_log_p_Inr:
  assumes "get_log_p self cached td softmax_temp num_starts = Inr (log_p, msk)"
  obtains td_unbatch pre_log_p pre_mask where
    "unbatchify_td td num_starts = Inr td_unbatch"
    "unfolded_log_p self cached td_unbatch softmax_temp = Inr (pre_log_p, pre_mask)"
    "(if 1 < num_starts then rearrange_b_s_l_to_sb_l pre_log_p else Inr pre_log_p) = Inr log_p"
    "(if 1 < num_starts then rearrange_b_s_l_to_sb_l pre_mask else Inr pre_mask) = Inr msk"
  using assms
  by (auto simp: get_log_p_def and_then_def split: sum.splits prod.splits)

lemma unfolded_log_p_mask:
  assumes "unfolded_log_p self cached td_unbatch softmax_temp = Inr (pre_log_p, pre_mask)"
  shows "pre_mask = tnot (action_mask td_unbatch)"
  using assms
  by (auto simp: unfolded_log_p_def and_then_def Let_def split: sum.splits prod.splits if_splits)

lemma unbatchify_td_action_mask:
  assumes "unbatchify_td td k = Inr td_unbatch"
  shows "unbatchify (action_mask td) k = Inr (action_mask td_unbatch)"
  using assms
  by (auto simp: unbatchify_td_def unbatchify_def [of _ k] and_then_def
      split: if_splits list.splits sum.splits)


section \<open>The trace of \<^verbatim>\<open>forward\<close>\<close>

lemma str_contains_iff: "str_contains sub s \<longleftrightarrow> (\<exists>p q. s = p @ sub @ q)"
proof (induction s)
  case Nil
  then show ?case by auto
next
  case (Cons c cs)
  show ?case
  proof
    assume "str_contains sub (c # cs)"
    then consider "take (length sub) (c # cs) = sub" | "str_contains sub cs"
      by auto
    then show "\<exists>p q. c # cs = p @ sub @ q"
    proof cases
      case 1
      then have "c # cs = [] @ sub @ drop (length sub) (c # cs)"
        by (metis append_Nil append_take_drop_id)
      then show ?thesis by blast
    next
      case 2
      then obtain p q where "cs = p @ sub @ q"
        using Cons.IH by blast
      then have "c # cs = (c # p) @ sub @ q"
        by simp
      then show ?thesis by blast
    qed
  next
    assume "\<exists>p q. c # cs = p @ sub @ q"
    then obtain p q where pq: "c # cs = p @ sub @ q"
      by blast
    show "str_contains sub (c # cs)"
    proof (cases p)
      case Nil
      with pq have "take (length sub) (c # cs) = sub"
        by simp
      then show ?thesis by simp
    next
      case (Cons d p')
      with pq have "cs = p' @ sub @ q"
        by simp
      then have "str_contains sub cs"
        using Cons.IH by blast
      then show ?thesis by simp
    qed
  qed
qed

text \<open>The trace of the main loop: the pairs of log-probabilities and action, one per iteration.\<close>

lemma main_loop_trace:
  assumes "main_loop fuel self cached softmax_temp num_starts decode_type r = Some (Inr r')"
  shows "\<exists>steps. outputs r' = outputs r @ map (\<lambda>p. FloatT (fst p)) steps
           \<and> actions r' = actions r @ map snd steps
           \<and> calls r' = calls r @ concat (map (\<lambda>p. [GetLogP, DecodeProbs, EnvStep (snd p)]) steps)
           \<and> length steps \<le> fuel
           \<and> tall (done_flag (run_td r'))"
  using assms
proof (induction fuel arbitrary: r)
  case 0
  then have "r' = r" and "tall (done_flag (run_td r))"
    by (auto split: if_splits)
  then show ?case
    by (intro exI [of _ "[]"]) simp
next
  case (Suc fuel)
  show ?case
  proof (cases "tall (done_flag (run_td r))")
    case True
    with Suc.prems have "r' = r"
      by simp
    with True show ?thesis
      by (intro exI [of _ "[]"]) simp
  next
    case False
    with Suc.prems obtain log_p msk td1 where
      g: "get_log_p self cached (run_td r) softmax_temp num_starts = Inr (log_p, msk)" and
      s: "set_action (run_td r) (decode_probs self (texp log_p) msk decode_type) = Inr td1" and
      rec: "main_loop fuel self cached softmax_temp num_starts decode_type
              \<lparr>run_td = env_step self td1,
               outputs = outputs r @ [FloatT log_p],
               actions = actions r @ [decode_probs self (texp log_p) msk decode_type],
               calls = calls r @ [GetLogP, DecodeProbs,
                                  EnvStep (decode_probs self (texp log_p) msk decode_type)]\<rparr>
            = Some (Inr r')"
      by (auto simp: Let_def split: sum.splits)
    from Suc.IH [OF rec] obtain steps where
      st: "outputs r' = (outputs r @ [FloatT log_p]) @ map (\<lambda>p. FloatT (fst p)) steps"
        "actions r' = (actions r @ [decode_probs self (texp log_p) msk decode_type]) @ map snd steps"
        "calls r' = (calls r @ [GetLogP, DecodeProbs,
                       EnvStep (decode_probs self (texp log_p) msk decode_type)])
                    @ concat (map (\<lambda>p. [GetLogP, DecodeProbs, EnvStep (snd p)]) steps)"
        "length steps \<le> fuel"
        "tall (done_flag (run_td r'))"
      by auto
    show ?thesis
      using st
      by (intro exI [of _ "(log_p, decode_probs self (texp log_p) msk decode_type) # steps"]) simp
  qed
qed





lemma finish_Inr:
  assumes "finish self calc_reward r = Inr (outs, acts, td', trace)"
  shows "stack_outputs (outputs r) = Inr outs" and "stack1 (actions r) = Inr acts"
    and "trace = calls r @ (if calc_reward then [Stack, GetReward] else [Stack])"
  using assms
  by (auto simp: finish_def split: sum.splits if_splits)

lemma forward_Inr:
  assumes "forward fuel self td embeddings decode_type softmax_temp num_starts_arg calc_reward
           = Some (Inr res)"
  obtains cached r0 r1 where
    "\<not> (str_contains ''multistart'' decode_type \<and> (case num_starts_arg of None \<Rightarrow> 0 | Some n \<Rightarrow> n) \<le> 1)"
    "precompute self embeddings (case num_starts_arg of None \<Rightarrow> 0 | Some n \<Rightarrow> n) = Inr cached"
    "multistart_seed self td decode_type (case num_starts_arg of None \<Rightarrow> 0 | Some n \<Rightarrow> n) [Precompute] = Inr r0"
    "main_loop fuel self cached softmax_temp (case num_starts_arg of None \<Rightarrow> 0 | Some n \<Rightarrow> n) decode_type r0
       = Some (Inr r1)"
    "finish self calc_reward r1 = Inr res"
  using assms
  by (auto simp: forward_def Let_def split: if_splits sum.splits option.splits)

lemma applied_actions_append: "applied_actions (xs @ ys) = applied_actions xs @ applied_actions ys"
  by (induction xs rule: applied_actions.induct) auto

lemma applied_actions_steps:
  "applied_actions (concat (map (\<lambda>p. [GetLogP, DecodeProbs, EnvStep (snd p)]) steps)) = map snd steps"
  by (induction steps) auto

lemma count_GetLogP_steps:
  "count_list (concat (map (\<lambda>p. [GetLogP, DecodeProbs, EnvStep (snd p)]) steps)) GetLogP = length steps"
  by (induction steps) auto

lemma count_SelectStartNodes_steps:
  "count_list (concat (map (\<lambda>p. [GetLogP, DecodeProbs, EnvStep (snd p)]) steps)) SelectStartNodes = 0"
  by (induction steps) auto

lemma count_Batchify_steps:
  "count_list (concat (map (\<lambda>p. [GetLogP, DecodeProbs, EnvStep (snd p)]) steps)) Batchify = 0"
  by (induction steps) auto

section \<open>The projections of \<^verbatim>\<open>_precompute\<close>\<close>








subsection \<open>The linear layer\<close>





subsection \<open>Chunks\<close>








subsection \<open>The mean over the node axis\<close>








subsection \<open>Replication of the graph context\<close>





subsection \<open>The cache\<close>



subsection \<open>A single start\<close>



subsection \<open>The expansion of the batch\<close>




section \<open>The store: what the decoder writes\<close>



lemma precompute_heap_Inr:
  assumes "precompute_heap self embeddings_ref num_starts h = Inr (h', refs)"
  shows "\<exists>c ext. lookup (floats h) embeddings_ref = Inr (node_embeddings c)
           \<and> precompute self (node_embeddings c) num_starts = Inr c
           \<and> load_cache h' refs = Inr c
           \<and> node_embeddings_ref refs = embeddings_ref
           \<and> floats h' = floats h @ ext \<and> bools h' = bools h \<and> dicts h' = dicts h"
proof -
  from assms obtain embeddings c where
    e: "lookup (floats h) embeddings_ref = Inr embeddings" and
    p: "precompute self embeddings num_starts = Inr c" and
    h': "h' = h\<lparr>floats := floats h @ [graph_context c, glimpse_key c, glimpse_val c, logit_key c]\<rparr>" and
    refs: "refs = \<lparr>node_embeddings_ref = embeddings_ref, graph_context_ref = length (floats h),
                    glimpse_key_ref = Suc (length (floats h)),
                    glimpse_val_ref = Suc (Suc (length (floats h))),
                    logit_key_ref = Suc (Suc (Suc (length (floats h))))\<rparr>"
    by (auto simp: precompute_heap_def and_then_def new_float_def Let_def split: sum.splits)
  have ne: "node_embeddings c = embeddings"
    using p by (auto simp: precompute_def and_then_def split: sum.splits prod.splits)
  have lt: "embeddings_ref < length (floats h)" and ev: "floats h ! embeddings_ref = embeddings"
    using e by (auto simp: lookup_def split: if_splits)
  have "load_cache h' refs = Inr c"
    using lt ev ne by (simp add: load_cache_def and_then_def lookup_def h' refs nth_append)
  then show ?thesis
    using e p ne h' refs by auto
qed




section \<open>Properties of the decoder\<close>

text \<open>
  C1: for every state and every decoding step, the mask that \<^verbatim>\<open>_get_log_p\<close> returns is
  the entrywise negation of the \<^verbatim>\<open>action_mask\<close> of the state: an entry is true exactly
  when the node is forbidden. The mask is computed on the unbatchified view of the state
  and, for more than one start, folded back; the fold undoes the unbatchification.
\<close>

theorem get_log_p_mask_negates_action_mask:
  assumes "get_log_p self cached td softmax_temp num_starts = Inr (log_p, msk)"
  shows "msk = tnot (action_mask td)
         \<and> (\<exists>td_unbatch. unbatchify_td td num_starts = Inr td_unbatch
               \<and> (if 1 < num_starts
                    then rearrange_b_s_l_to_sb_l (tnot (action_mask td_unbatch))
                    else Inr (tnot (action_mask td_unbatch))) = Inr msk)"
proof -
  from assms obtain td_unbatch pre_log_p pre_mask where
    un: "unbatchify_td td num_starts = Inr td_unbatch" and
    pre: "unfolded_log_p self cached td_unbatch softmax_temp = Inr (pre_log_p, pre_mask)" and
    fold: "(if 1 < num_starts then rearrange_b_s_l_to_sb_l pre_mask else Inr pre_mask) = Inr msk"
    by (rule get_log_p_Inr)
  have pm: "pre_mask = tnot (action_mask td_unbatch)"
    using pre by (rule unfolded_log_p_mask)
  have am: "unbatchify (action_mask td) num_starts = Inr (action_mask td_unbatch)"
    using un by (rule unbatchify_td_action_mask)
  have "msk = tnot (action_mask td)"
  proof (cases "1 < num_starts")
    case True
    with fold pm have r: "rearrange_b_s_l_to_sb_l (map_tensor Not (action_mask td_unbatch)) = Inr msk"
      by (simp add: tnot_def)
    then obtain y where y: "rearrange_b_s_l_to_sb_l (action_mask td_unbatch) = Inr y"
      and m: "msk = map_tensor Not y"
      by (auto simp: rearrange_map_tensor split: sum.splits)
    have "y = action_mask td"
      using True am y by (rule rearrange_unbatchify)
    with m show ?thesis
      by (simp add: tnot_def)
  next
    case False
    with am have "action_mask td_unbatch = action_mask td"
      by (simp add: unbatchify_def)
    with False fold pm show ?thesis
      by simp
  qed
  with un fold pm show ?thesis
    by auto
qed

theorem get_log_p_mask_negates_action_mask_witness:
  "get_log_p toy_decoder (toy_cache 2) toy_td_expanded None 2
     = Inr (Tn [Tn [Sc (- 1), Sc 0, Sc 0], Tn [Sc (- 1), Sc 0, Sc 0],
                Tn [Sc 0, Sc (- 1), Sc 0], Tn [Sc 0, Sc (- 1), Sc 0]],
            Tn [Tn [Sc True, Sc False, Sc False], Tn [Sc True, Sc False, Sc False],
                Tn [Sc False, Sc True, Sc False], Tn [Sc False, Sc True, Sc False]])
   \<and> Tn [Tn [Sc True, Sc False, Sc False], Tn [Sc True, Sc False, Sc False],
          Tn [Sc False, Sc True, Sc False], Tn [Sc False, Sc True, Sc False]]
       = tnot (action_mask toy_td_expanded)"
proof -
  have h: "get_log_p toy_decoder (toy_cache 2) toy_td_expanded None 2
     = Inr (Tn [Tn [Sc (- 1), Sc 0, Sc 0], Tn [Sc (- 1), Sc 0, Sc 0],
                Tn [Sc 0, Sc (- 1), Sc 0], Tn [Sc 0, Sc (- 1), Sc 0]],
            Tn [Tn [Sc True, Sc False, Sc False], Tn [Sc True, Sc False, Sc False],
                Tn [Sc False, Sc True, Sc False], Tn [Sc False, Sc True, Sc False]])"
    by code_simp
  from get_log_p_mask_negates_action_mask [OF h] h show ?thesis
    by blast
qed


text \<open>
  C2: whenever \<^verbatim>\<open>num_starts\<close> is greater than 1, the \<^verbatim>\<open>log_p\<close> and the mask that
  \<^verbatim>\<open>_get_log_p\<close> returns are the tensors of shape (batch, starts, nodes) computed on the
  unbatchified view, folded into shape (starts * batch, nodes) in starts-major order:
  row \<open>s * B + b\<close> of the output is entry \<open>(b, s)\<close> of the tensor before the fold. For
  the mask the starts axis is \<^verbatim>\<open>num_starts\<close> itself.
\<close>

theorem get_log_p_folds_starts_major:
  assumes "1 < num_starts"
    and "get_log_p self cached td softmax_temp num_starts = Inr (log_p, msk)"
  shows "\<exists>td_unbatch pre_log_p pre_mask B S L B' L'.
           unbatchify_td td num_starts = Inr td_unbatch
         \<and> unfolded_log_p self cached td_unbatch softmax_temp = Inr (pre_log_p, pre_mask)
         \<and> shape pre_log_p = Some [B, S, L]
         \<and> shape log_p = Some [S * B, L]
         \<and> (\<forall>b<B. \<forall>s<S. rows log_p ! (s * B + b) = rows (rows pre_log_p ! b) ! s)
         \<and> shape pre_mask = Some [B', nat num_starts, L']
         \<and> shape msk = Some [nat num_starts * B', L']
         \<and> (\<forall>b<B'. \<forall>s<nat num_starts. rows msk ! (s * B' + b) = rows (rows pre_mask ! b) ! s)"
proof -
  from assms(2) obtain td_unbatch pre_log_p pre_mask where
    un: "unbatchify_td td num_starts = Inr td_unbatch" and
    pre: "unfolded_log_p self cached td_unbatch softmax_temp = Inr (pre_log_p, pre_mask)" and
    fl: "(if 1 < num_starts then rearrange_b_s_l_to_sb_l pre_log_p else Inr pre_log_p) = Inr log_p" and
    fm: "(if 1 < num_starts then rearrange_b_s_l_to_sb_l pre_mask else Inr pre_mask) = Inr msk"
    by (rule get_log_p_Inr)
  from fl fm assms(1) have rl: "rearrange_b_s_l_to_sb_l pre_log_p = Inr log_p"
    and rm: "rearrange_b_s_l_to_sb_l pre_mask = Inr msk"
    by simp_all
  obtain B S L where shl: "shape pre_log_p = Some [B, S, L]"
    using rearrange_rank3 [OF rl] by blast
  obtain B' S' L' where shm: "shape pre_mask = Some [B', S', L']"
    using rearrange_rank3 [OF rm] by blast
  have "pre_mask = tnot (action_mask td_unbatch)"
    using pre by (rule unfolded_log_p_mask)
  then have "shape (action_mask td_unbatch) = Some [B', S', L']"
    using shm by (simp add: tnot_def shape_map_tensor)
  moreover have "unbatchify (action_mask td) num_starts = Inr (action_mask td_unbatch)"
    using un by (rule unbatchify_td_action_mask)
  ultimately have S': "S' = nat num_starts"
    using assms(1) unbatchify_starts_axis(1) by blast
  from rearrange_starts_major [OF shl] rl
  have l: "shape log_p = Some [S * B, L]"
    "\<forall>b<B. \<forall>s<S. rows log_p ! (s * B + b) = rows (rows pre_log_p ! b) ! s"
    by auto
  from rearrange_starts_major [OF shm] rm
  have m: "shape msk = Some [S' * B', L']"
    "\<forall>b<B'. \<forall>s<S'. rows msk ! (s * B' + b) = rows (rows pre_mask ! b) ! s"
    by auto
  show ?thesis
    using un pre shl l shm m unfolding S' by blast
qed

theorem get_log_p_folds_starts_major_witness:
  "(1::int) < 2
   \<and> get_log_p toy_decoder (toy_cache 2) toy_td_expanded None 2
     = Inr (Tn [Tn [Sc (- 1), Sc 0, Sc 0], Tn [Sc (- 1), Sc 0, Sc 0],
                Tn [Sc 0, Sc (- 1), Sc 0], Tn [Sc 0, Sc (- 1), Sc 0]],
            Tn [Tn [Sc True, Sc False, Sc False], Tn [Sc True, Sc False, Sc False],
                Tn [Sc False, Sc True, Sc False], Tn [Sc False, Sc True, Sc False]])
   \<and> (\<exists>td_unbatch pre_log_p pre_mask B S L B' L'.
           unbatchify_td toy_td_expanded 2 = Inr td_unbatch
         \<and> unfolded_log_p toy_decoder (toy_cache 2) td_unbatch None = Inr (pre_log_p, pre_mask)
         \<and> shape pre_log_p = Some [B, S, L]
         \<and> shape (Tn [Tn [Sc (- 1), Sc 0, Sc 0], Tn [Sc (- 1), Sc 0, Sc 0],
                Tn [Sc 0, Sc (- 1), Sc 0], Tn [Sc 0, Sc (- 1), Sc (0::real)]]) = Some [S * B, L]
         \<and> shape pre_mask = Some [B', nat 2, L']
         \<and> shape (Tn [Tn [Sc True, Sc False, Sc False], Tn [Sc True, Sc False, Sc False],
                Tn [Sc False, Sc True, Sc False], Tn [Sc False, Sc True, Sc False]])
             = Some [nat 2 * B', L'])"
proof -
  have k: "(1::int) < 2"
    by simp
  have h: "get_log_p toy_decoder (toy_cache 2) toy_td_expanded None 2
     = Inr (Tn [Tn [Sc (- 1), Sc 0, Sc 0], Tn [Sc (- 1), Sc 0, Sc 0],
                Tn [Sc 0, Sc (- 1), Sc 0], Tn [Sc 0, Sc (- 1), Sc 0]],
            Tn [Tn [Sc True, Sc False, Sc False], Tn [Sc True, Sc False, Sc False],
                Tn [Sc False, Sc True, Sc False], Tn [Sc False, Sc True, Sc False]])"
    by code_simp
  from get_log_p_folds_starts_major [OF k h] k h show ?thesis
    by blast
qed


text \<open>
  C3: a call of \<^verbatim>\<open>forward\<close> whose \<^verbatim>\<open>decode_type\<close> contains \<^verbatim>\<open>"multistart"\<close> while
  \<^verbatim>\<open>num_starts\<close> is at most 1 (\<^verbatim>\<open>None\<close> counting as 0) raises the assertion error before
  anything else happens: the log of calls is empty, and the result does not depend on
  the state, the embeddings, the collaborators or the bound on the loop.
\<close>

theorem forward_multistart_needs_starts:
  assumes "str_contains ''multistart'' decode_type"
    and "(case num_starts_arg of None \<Rightarrow> 0 | Some n \<Rightarrow> n) \<le> 1"
  shows "forward fuel self td embeddings decode_type softmax_temp num_starts_arg calc_reward
         = Some (Inl (AssertionError, []))"
  using assms by (simp add: forward_def)

theorem forward_multistart_needs_starts_witness:
  "str_contains ''multistart'' ''multistart_greedy''
   \<and> (case Some (1::int) of None \<Rightarrow> 0 | Some n \<Rightarrow> n) \<le> 1
   \<and> forward 0 toy_decoder toy_td (Sc 0) ''multistart_greedy'' None (Some 1) True
       = Some (Inl (AssertionError, []))
   \<and> (case (None::int option) of None \<Rightarrow> 0 | Some n \<Rightarrow> n) \<le> 1
   \<and> forward 10 toy_decoder toy_td toy_embeddings ''multistart_greedy'' None None True
       = Some (Inl (AssertionError, []))"
proof -
  have a: "str_contains ''multistart'' ''multistart_greedy''"
    by simp
  have b: "(case Some (1::int) of None \<Rightarrow> 0 | Some n \<Rightarrow> n) \<le> 1"
    by simp
  have c: "(case (None::int option) of None \<Rightarrow> 0 | Some n \<Rightarrow> n) \<le> 1"
    by simp
  show ?thesis
    using a b c forward_multistart_needs_starts [OF a b] forward_multistart_needs_starts [OF a c]
    by simp
qed






text \<open>
  C10: \<^verbatim>\<open>num_starts=None\<close> is \<^verbatim>\<open>num_starts=0\<close>. When \<^verbatim>\<open>decode_type\<close> does not contain
  \<^verbatim>\<open>"multistart"\<close>, the seeding branch is skipped and leaves the state as it is, the
  state is neither expanded nor unbatchified, \<^verbatim>\<open>_get_log_p\<close> returns the scores as
  computed, without folding, and a completed run has called neither the seeding policy
  nor \<^verbatim>\<open>batchify\<close> and has made one transition of the environment per iteration.
\<close>

theorem forward_num_starts_None_is_zero:
  assumes "\<not> str_contains ''multistart'' decode_type"
  shows "forward fuel self td embeddings decode_type softmax_temp None calc_reward
           = forward fuel self td embeddings decode_type softmax_temp (Some 0) calc_reward
         \<and> multistart_seed self td decode_type 0 trace0
             = Inr \<lparr>run_td = td, outputs = [], actions = [], calls = trace0\<rparr>
         \<and> batchify_td td 0 = Inr td \<and> unbatchify_td td 0 = Inr td
         \<and> get_log_p self cached td softmax_temp 0 = unfolded_log_p self cached td softmax_temp
         \<and> (forward fuel self td embeddings decode_type softmax_temp None calc_reward
               = Some (Inr (outs, acts, td', trace))
             \<longrightarrow> count_list trace SelectStartNodes = 0 \<and> count_list trace Batchify = 0
                 \<and> length (applied_actions trace) = count_list trace GetLogP)"
proof -
  have a: "forward fuel self td embeddings decode_type softmax_temp None calc_reward
           = forward fuel self td embeddings decode_type softmax_temp (Some 0) calc_reward"
    by (simp add: forward_def)
  have b: "multistart_seed self td decode_type 0 trace0
           = Inr \<lparr>run_td = td, outputs = [], actions = [], calls = trace0\<rparr>"
    using assms by (simp add: multistart_seed_def)
  have c: "batchify_td td 0 = Inr td" "unbatchify_td td 0 = Inr td"
    by (simp_all add: batchify_td_def unbatchify_td_def)
  have d: "get_log_p self cached td softmax_temp 0 = unfolded_log_p self cached td softmax_temp"
    by (simp add: get_log_p_def unbatchify_td_def and_then_def split: sum.splits prod.splits)
  have e: "count_list trace SelectStartNodes = 0 \<and> count_list trace Batchify = 0
           \<and> length (applied_actions trace) = count_list trace GetLogP"
    if run: "forward fuel self td embeddings decode_type softmax_temp None calc_reward
             = Some (Inr (outs, acts, td', trace))"
  proof -
    from run obtain cached' r0 r1 where
      seed: "multistart_seed self td decode_type 0 [Precompute] = Inr r0" and
      loop: "main_loop fuel self cached' softmax_temp 0 decode_type r0 = Some (Inr r1)" and
      fin: "finish self calc_reward r1 = Inr (outs, acts, td', trace)"
      by (rule forward_Inr) simp
    have r0: "r0 = \<lparr>run_td = td, outputs = [], actions = [], calls = [Precompute]\<rparr>"
      using seed assms by (simp add: multistart_seed_def)
    from main_loop_trace [OF loop] obtain steps :: "(real tensor \<times> nat tensor) list" where
      c1: "calls r1 = calls r0 @ concat (map (\<lambda>p. [GetLogP, DecodeProbs, EnvStep (snd p)]) steps)"
      by blast
    have tr: "trace = calls r1 @ (if calc_reward then [Stack, GetReward] else [Stack])"
      using finish_Inr(3) [OF fin] .
    show ?thesis
      using c1 tr r0
      by (simp add: count_SelectStartNodes_steps count_Batchify_steps count_GetLogP_steps
          applied_actions_append applied_actions_steps)
  qed
  show ?thesis
    using a b c d e by blast
qed

theorem forward_num_starts_None_is_zero_witness:
  "\<not> str_contains ''multistart'' ''greedy''
   \<and> forward 10 toy_decoder toy_td toy_embeddings ''greedy'' None None True
       = forward 10 toy_decoder toy_td toy_embeddings ''greedy'' None (Some 0) True
   \<and> forward 10 toy_decoder toy_td toy_embeddings ''greedy'' None None True
       = Some (Inr (toy_single_outs, toy_single_acts, toy_single_td, toy_single_trace))
   \<and> count_list toy_single_trace SelectStartNodes = 0
   \<and> count_list toy_single_trace Batchify = 0
   \<and> length (applied_actions toy_single_trace) = count_list toy_single_trace GetLogP"
proof -
  have a: "\<not> str_contains ''multistart'' ''greedy''"
    by simp
  have h: "forward 10 toy_decoder toy_td toy_embeddings ''greedy'' None None True
       = Some (Inr (toy_single_outs, toy_single_acts, toy_single_td, toy_single_trace))"
    by code_simp
  from forward_num_starts_None_is_zero [OF a, where fuel = 10 and self = toy_decoder
      and td = toy_td and embeddings = toy_embeddings and softmax_temp = None
      and calc_reward = True and outs = toy_single_outs and acts = toy_single_acts
      and td' = toy_single_td and trace = toy_single_trace] a h
  show ?thesis
    by blast
qed









end
